theory Spec2Isabelle
  imports Main "HOL-Library.Word"
begin

section \<open>Slices, panics and the random source\<close>

text \<open>
  A Go slice is a list. Indexing a slice out of range panics, and so does
  \<^verbatim>\<open>rand.Intn(n)\<close> for \<open>n \<le> 0\<close>; both panics are values of the model, so that
  a strategy that returns a candidate is shown to return one.
\<close>

datatype panic = IndexOutOfRange | InvalidArgument

definition index :: "'a list \<Rightarrow> nat \<Rightarrow> panic + 'a" where
  "index vs i = (if i < length vs then Inr (vs ! i) else Inl IndexOutOfRange)"

text \<open>
  \<^verbatim>\<open>r.Intn(n)\<close> yields some number in \<open>[0, n)\<close>. The generator is not part of the
  repository: its next raw output \<open>r\<close> is an argument of every strategy that draws,
  and \<open>Intn\<close> brings it into range.
\<close>

definition Intn :: "nat \<Rightarrow> nat \<Rightarrow> panic + nat" where
  "Intn r n = (if n = 0 then Inl InvalidArgument else Inr (r mod n))"

definition MaxInt64 :: "64 word" where
  "MaxInt64 = 9223372036854775807"

section \<open>Candidates and their capabilities\<close>

text \<open>
  A marker as the filters read it: \<^verbatim>\<open>Count()\<close> is an int64, \<^verbatim>\<open>Time()\<close> an instant
  (nanoseconds on the clock's axis). The filters only compare these numbers.
\<close>

record marker =
  Count :: int
  Time :: int

text \<open>
  A candidate is observed through type assertions only. Each capability field is
  \<open>None\<close> when the assertion \<^verbatim>\<open>any(v).(I)\<close> fails, and otherwise holds what the
  interface's method returns: \<^verbatim>\<open>Marker()\<close> and \<^verbatim>\<open>Metadata()\<close> may themselves
  return nil (the inner \<open>None\<close>). \<open>ident\<close> tells candidates apart.
\<close>

record 'md candidate =
  ident :: string
  Markable :: "marker option option"
  Metadatable :: "'md option option"
  Connectable :: "64 word option"
  LatencyStater :: "64 word option"

text \<open>
  Declarations the source files use and do not contain: the label and default
  constants of the package and the helpers of the metadata packages
  (\<^verbatim>\<open>md.IsExists\<close>, \<^verbatim>\<open>mdutil.GetInt\<close>, \<^verbatim>\<open>mdutil.GetDuration\<close>, \<^verbatim>\<open>mdutil.GetBool\<close>).
  The helpers of \<^verbatim>\<open>mdutil\<close> accept a nil metadata.
\<close>

record 'md env =
  labelWeight :: string
  labelBackup :: string
  labelMaxFails :: string
  labelFailTimeout :: string
  DefaultFailTimeout :: int
  IsExists :: "'md \<Rightarrow> string \<Rightarrow> bool"
  GetInt :: "'md option \<Rightarrow> string \<Rightarrow> int"
  GetDuration :: "'md option \<Rightarrow> string \<Rightarrow> int"
  GetBool :: "'md option \<Rightarrow> string \<Rightarrow> bool"

section \<open>Strategies (strategy.go)\<close>

text \<open>
  Every \<^verbatim>\<open>Apply\<close> has the named result \<^verbatim>\<open>(v T)\<close>; a bare \<^verbatim>\<open>return\<close> yields the zero
  value of \<open>T\<close>, the argument \<open>zero\<close> of the model.
\<close>

subsection \<open>RoundRobin\<close>

record roundRobinStrategy =
  counter :: "64 word"

text \<open>
  \<^verbatim>\<open>atomic.AddUint64(&s.counter, 1) - 1\<close> is the value of the counter before the
  increment, in 64-bit arithmetic. \<^verbatim>\<open>len(vs)\<close> is a non-negative int, so its
  conversion to uint64 is exact and the remainder is taken on naturals.
\<close>

definition roundRobinStrategy_Apply ::
  "'a \<Rightarrow> roundRobinStrategy \<Rightarrow> 'a list \<Rightarrow> (panic + 'a) \<times> roundRobinStrategy" where
  "roundRobinStrategy_Apply zero s vs =
     (if length vs = 0 then (Inr zero, s)
      else let s' = s\<lparr>counter := counter s + 1\<rparr>;
               n = counter s' - 1
           in (index vs (unat n mod length vs), s'))"

text \<open>\<open>k\<close> consecutive calls on the same list: the results in call order, and the final state.\<close>

fun roundRobinStrategy_calls ::
  "'a \<Rightarrow> roundRobinStrategy \<Rightarrow> 'a list \<Rightarrow> nat \<Rightarrow> (panic + 'a) list \<times> roundRobinStrategy" where
  "roundRobinStrategy_calls zero s vs 0 = ([], s)"
| "roundRobinStrategy_calls zero s vs (Suc k) =
     (let (v, s') = roundRobinStrategy_Apply zero s vs;
          (rest, s'') = roundRobinStrategy_calls zero s' vs k
      in (v # rest, s''))"

subsection \<open>Random\<close>

text \<open>
  Modelled from the spec: the sampler \<^verbatim>\<open>RandomWeighted\<close> (\<^verbatim>\<open>Reset\<close>, \<^verbatim>\<open>Add\<close>,
  \<^verbatim>\<open>Next\<close>), which is not among the source files. It draws below the total weight
  and returns the item of the first cumulative bucket that exceeds the draw.
\<close>

fun RandomWeighted_scan :: "('a \<times> int) list \<Rightarrow> int \<Rightarrow> int \<Rightarrow> 'a option" where
  "RandomWeighted_scan [] acc draw = None"
| "RandomWeighted_scan ((item, weight) # items) acc draw =
     (if draw < acc + weight then Some item
      else RandomWeighted_scan items (acc + weight) draw)"

definition RandomWeighted_Next :: "'a \<Rightarrow> nat \<Rightarrow> ('a \<times> int) list \<Rightarrow> panic + 'a" where
  "RandomWeighted_Next zero r items =
     (case Intn r (nat (sum_list (map snd items))) of
        Inl e \<Rightarrow> Inl e
      | Inr draw \<Rightarrow>
          (case RandomWeighted_scan items 0 (int draw) of
             Some item \<Rightarrow> Inr item
           | None \<Rightarrow> Inr zero))"

definition randomStrategy_weight :: "'md env \<Rightarrow> 'md candidate \<Rightarrow> int" where
  "randomStrategy_weight E v =
     (let weight = (case Metadatable v of
                      Some md \<Rightarrow> GetInt E md (labelWeight E)
                    | None \<Rightarrow> 0)
      in if weight \<le> 0 then 1 else weight)"

definition randomStrategy_Apply ::
  "'md env \<Rightarrow> 'md candidate \<Rightarrow> nat \<Rightarrow> 'md candidate list \<Rightarrow> panic + 'md candidate" where
  "randomStrategy_Apply E zero r vs =
     (if length vs = 0 then Inr zero
      else RandomWeighted_Next zero r (map (\<lambda>v. (v, randomStrategy_weight E v)) vs))"

subsection \<open>FIFO\<close>

definition fifoStrategy_Apply :: "'a \<Rightarrow> 'a list \<Rightarrow> panic + 'a" where
  "fifoStrategy_Apply zero vs = (if length vs = 0 then Inr zero else index vs 0)"

subsection \<open>Hash\<close>

text \<open>
  \<open>h\<close> is the \<^verbatim>\<open>Source\<close> of the hash carried by the context, \<open>None\<close> when
  \<^verbatim>\<open>HashFromContext\<close> returns nil. \<^verbatim>\<open>crc32.ChecksumIEEE\<close> is the standard
  library's and is an argument. The trace line written to the default logger is left out.
\<close>

definition hashStrategy_Apply ::
  "(string \<Rightarrow> 32 word) \<Rightarrow> 'a \<Rightarrow> nat \<Rightarrow> string option \<Rightarrow> 'a list \<Rightarrow> panic + 'a" where
  "hashStrategy_Apply ChecksumIEEE zero r h vs =
     (if length vs = 0 then Inr zero
      else case h of
        Some Source \<Rightarrow>
          (let checksum = (ucast (ChecksumIEEE Source) :: 64 word)
           in index vs (unat checksum mod length vs))
      | None \<Rightarrow>
          (case Intn r (length vs) of
             Inl e \<Rightarrow> Inl e
           | Inr i \<Rightarrow> index vs i))"

subsection \<open>LeastConn\<close>

text \<open>
  The loop over \<^verbatim>\<open>vs\<close> returns its two variables, the running minimum and the
  tied candidates. The comparisons are those of int64.
\<close>

definition conns_of :: "('md, 'z) candidate_scheme \<Rightarrow> 64 word" where
  "conns_of item = (case Connectable item of Some c \<Rightarrow> c | None \<Rightarrow> 0)"

fun leastConn_loop ::
  "('md, 'z) candidate_scheme list \<Rightarrow> 64 word \<Rightarrow> ('md, 'z) candidate_scheme list
   \<Rightarrow> 64 word \<times> ('md, 'z) candidate_scheme list" where
  "leastConn_loop [] minConns candidates = (minConns, candidates)"
| "leastConn_loop (item # vs) minConns candidates =
     (let conns = conns_of item
      in if sint conns < sint minConns then leastConn_loop vs conns [item]
         else if conns = minConns then leastConn_loop vs minConns (candidates @ [item])
         else leastConn_loop vs minConns candidates)"

definition leastConnStrategy_Apply ::
  "('md, 'z) candidate_scheme \<Rightarrow> nat \<Rightarrow> ('md, 'z) candidate_scheme list
   \<Rightarrow> panic + ('md, 'z) candidate_scheme" where
  "leastConnStrategy_Apply zero r vs =
     (if length vs = 0 then Inr zero
      else let (minConns, candidates) = leastConn_loop vs MaxInt64 []
           in if length candidates = 1 then index candidates 0
              else case Intn r (length candidates) of
                     Inl e \<Rightarrow> Inl e
                   | Inr i \<Rightarrow> index candidates i)"

subsection \<open>LeastLatency\<close>

definition latency_of :: "('md, 'z) candidate_scheme \<Rightarrow> 64 word" where
  "latency_of item =
     (case LatencyStater item of
        Some latency \<Rightarrow> if sint latency \<le> 0 then MaxInt64 else latency
      | None \<Rightarrow> MaxInt64)"

fun leastLatency_loop ::
  "('md, 'z) candidate_scheme list \<Rightarrow> 64 word \<Rightarrow> ('md, 'z) candidate_scheme list
   \<Rightarrow> 64 word \<times> ('md, 'z) candidate_scheme list" where
  "leastLatency_loop [] minLatency candidates = (minLatency, candidates)"
| "leastLatency_loop (item # vs) minLatency candidates =
     (let latency = latency_of item
      in if sint latency < sint minLatency then leastLatency_loop vs latency [item]
         else if latency = minLatency then leastLatency_loop vs minLatency (candidates @ [item])
         else leastLatency_loop vs minLatency candidates)"

definition leastLatencyStrategy_Apply ::
  "('md, 'z) candidate_scheme \<Rightarrow> nat \<Rightarrow> ('md, 'z) candidate_scheme list
   \<Rightarrow> panic + ('md, 'z) candidate_scheme" where
  "leastLatencyStrategy_Apply zero r vs =
     (if length vs = 0 then Inr zero
      else let (minLatency, candidates) = leastLatency_loop vs MaxInt64 []
           in if length candidates = 1 then index candidates 0
              else case Intn r (length candidates) of
                     Inl e \<Rightarrow> Inl e
                   | Inr i \<Rightarrow> index candidates i)"

section \<open>Filters (filter.go)\<close>

text \<open>
  \<^verbatim>\<open>time.Since(t)\<close> is the duration from \<open>t\<close> to the clock's \<open>now\<close>, an int64 of
  nanoseconds that saturates at the largest and the smallest duration.
\<close>

definition Since :: "int \<Rightarrow> int \<Rightarrow> int" where
  "Since now t = max (- (2 ^ 63)) (min (2 ^ 63 - 1) (now - t))"

subsection \<open>FailFilter\<close>

record failFilter =
  maxFails :: int
  failTimeout :: int

text \<open>The first half of the loop body: the two limits that apply to the candidate \<open>v\<close>.\<close>

definition failFilter_limits ::
  "'md env \<Rightarrow> failFilter \<Rightarrow> ('md, 'z) candidate_scheme \<Rightarrow> int \<times> int" where
  "failFilter_limits E f v =
     (let maxFails = failFilter.maxFails f;
          failTimeout = failTimeout f;
          (maxFails, failTimeout) =
            (case Metadatable v of
               Some (Some md) \<Rightarrow>
                 (if IsExists E md (labelMaxFails E)
                  then GetInt E (Some md) (labelMaxFails E) else maxFails,
                  if IsExists E md (labelFailTimeout E)
                  then GetDuration E (Some md) (labelFailTimeout E) else failTimeout)
             | _ \<Rightarrow> (maxFails, failTimeout));
          maxFails = (if maxFails \<le> 0 then 1 else maxFails);
          failTimeout = (if failTimeout \<le> 0 then DefaultFailTimeout E else failTimeout)
      in (maxFails, failTimeout))"

fun failFilter_loop ::
  "'md env \<Rightarrow> failFilter \<Rightarrow> int \<Rightarrow> ('md, 'z) candidate_scheme list
   \<Rightarrow> ('md, 'z) candidate_scheme list \<Rightarrow> ('md, 'z) candidate_scheme list" where
  "failFilter_loop E f now [] l = l"
| "failFilter_loop E f now (v # vs) l =
     (let (maxFails, failTimeout) = failFilter_limits E f v
      in case Markable v of
           Some (Some marker) \<Rightarrow>
             if Count marker < maxFails \<or> Since now (Time marker) \<ge> failTimeout
             then failFilter_loop E f now vs (l @ [v])
             else failFilter_loop E f now vs l
         | _ \<Rightarrow> failFilter_loop E f now vs (l @ [v]))"

definition failFilter_Filter ::
  "'md env \<Rightarrow> failFilter \<Rightarrow> int \<Rightarrow> ('md, 'z) candidate_scheme list
   \<Rightarrow> ('md, 'z) candidate_scheme list" where
  "failFilter_Filter E f now vs =
     (if length vs \<le> 1 then vs else failFilter_loop E f now vs [])"

subsection \<open>HealthCheckFilter\<close>

record healthCheckFilter =
  maxFails :: int

text \<open>The loop, with the limit \<open>limit\<close> that \<^verbatim>\<open>Filter\<close> has computed before it.\<close>

fun healthCheckFilter_loop ::
  "int \<Rightarrow> ('md, 'z) candidate_scheme list \<Rightarrow> ('md, 'z) candidate_scheme list
   \<Rightarrow> ('md, 'z) candidate_scheme list" where
  "healthCheckFilter_loop limit [] l = l"
| "healthCheckFilter_loop limit (v # vs) l =
     (case Markable v of
        Some (Some marker) \<Rightarrow>
          if Count marker < limit
          then healthCheckFilter_loop limit vs (l @ [v])
          else healthCheckFilter_loop limit vs l
      | _ \<Rightarrow> healthCheckFilter_loop limit vs (l @ [v]))"

definition healthCheckFilter_Filter ::
  "healthCheckFilter \<Rightarrow> ('md, 'z) candidate_scheme list \<Rightarrow> ('md, 'z) candidate_scheme list" where
  "healthCheckFilter_Filter f vs =
     (if length vs \<le> 1 then vs
      else let maxFails = healthCheckFilter.maxFails f;
               maxFails = (if maxFails \<le> 0 then 1 else maxFails);
               l = healthCheckFilter_loop maxFails vs []
           in if length l = 0 then vs else l)"

subsection \<open>BackupFilter\<close>

fun backupFilter_loop ::
  "'md env \<Rightarrow> ('md, 'z) candidate_scheme list \<Rightarrow> ('md, 'z) candidate_scheme list
   \<Rightarrow> ('md, 'z) candidate_scheme list
   \<Rightarrow> ('md, 'z) candidate_scheme list \<times> ('md, 'z) candidate_scheme list" where
  "backupFilter_loop E [] l backups = (l, backups)"
| "backupFilter_loop E (v # vs) l backups =
     (case Metadatable v of
        Some md \<Rightarrow>
          if GetBool E md (labelBackup E)
          then backupFilter_loop E vs l (backups @ [v])
          else backupFilter_loop E vs (l @ [v]) backups
      | None \<Rightarrow> backupFilter_loop E vs (l @ [v]) backups)"

definition backupFilter_Filter ::
  "'md env \<Rightarrow> ('md, 'z) candidate_scheme list \<Rightarrow> ('md, 'z) candidate_scheme list" where
  "backupFilter_Filter E vs =
     (if length vs \<le> 1 then vs
      else let (l, backups) = backupFilter_loop E vs [] []
           in if length l = 0 then backups else l)"

subsection \<open>The filters as the specification words them\<close>

text \<open>
  The limits of FailFilter in the specification's words: the configured value unless the
  candidate's metadata sets the key, and a non-positive value replaced.
\<close>

definition metadata_of :: "('md, 'z) candidate_scheme \<Rightarrow> 'md option" where
  "metadata_of v = (case Metadatable v of Some (Some md) \<Rightarrow> Some md | _ \<Rightarrow> None)"

definition marker_of :: "('md, 'z) candidate_scheme \<Rightarrow> marker option" where
  "marker_of v = (case Markable v of Some (Some m) \<Rightarrow> Some m | _ \<Rightarrow> None)"

definition effectiveMaxFails :: "'md env \<Rightarrow> failFilter \<Rightarrow> ('md, 'z) candidate_scheme \<Rightarrow> int" where
  "effectiveMaxFails E f v =
     (let configured =
            (case metadata_of v of
               Some md \<Rightarrow> if IsExists E md (labelMaxFails E)
                          then GetInt E (Some md) (labelMaxFails E)
                          else failFilter.maxFails f
             | None \<Rightarrow> failFilter.maxFails f)
      in if configured \<le> 0 then 1 else configured)"

definition effectiveFailTimeout :: "'md env \<Rightarrow> failFilter \<Rightarrow> ('md, 'z) candidate_scheme \<Rightarrow> int" where
  "effectiveFailTimeout E f v =
     (let configured =
            (case metadata_of v of
               Some md \<Rightarrow> if IsExists E md (labelFailTimeout E)
                          then GetDuration E (Some md) (labelFailTimeout E)
                          else failTimeout f
             | None \<Rightarrow> failTimeout f)
      in if configured \<le> 0 then DefaultFailTimeout E else configured)"

definition failFilter_keeps ::
  "'md env \<Rightarrow> failFilter \<Rightarrow> int \<Rightarrow> ('md, 'z) candidate_scheme \<Rightarrow> bool" where
  "failFilter_keeps E f now v =
     (case marker_of v of
        None \<Rightarrow> True
      | Some m \<Rightarrow> Count m < effectiveMaxFails E f v
                  \<or> Since now (Time m) \<ge> effectiveFailTimeout E f v)"

text \<open>A candidate is a backup when it has metadata whose backup flag reads true.\<close>

definition is_backup :: "'md env \<Rightarrow> ('md, 'z) candidate_scheme \<Rightarrow> bool" where
  "is_backup E v = (case Metadatable v of Some md \<Rightarrow> GetBool E md (labelBackup E) | None \<Rightarrow> False)"

text \<open>What the health-check filter keeps: a candidate without a marker, or one below the limit.\<close>

definition healthCheck_keeps :: "int \<Rightarrow> ('md, 'z) candidate_scheme \<Rightarrow> bool" where
  "healthCheck_keeps limit v = (case marker_of v of None \<Rightarrow> True | Some m \<Rightarrow> Count m < limit)"

text \<open>The health-check filter's threshold, and a candidate at or over it.\<close>

definition healthCheck_effectiveMaxFails :: "healthCheckFilter \<Rightarrow> int" where
  "healthCheck_effectiveMaxFails f =
     (if healthCheckFilter.maxFails f \<le> 0 then 1 else healthCheckFilter.maxFails f)"

definition over_threshold :: "healthCheckFilter \<Rightarrow> ('md, 'z) candidate_scheme \<Rightarrow> bool" where
  "over_threshold f v =
     (case marker_of v of
        None \<Rightarrow> False
      | Some m \<Rightarrow> Count m \<ge> healthCheck_effectiveMaxFails f)"

section \<open>The health checker (strategy.go, second part)\<close>

type_synonym CheckType = string

definition CheckTypeTCP :: CheckType where
  "CheckTypeTCP = ''tcp''"

definition CheckTypeHTTP :: CheckType where
  "CheckTypeHTTP = ''http''"

record HealthCheckConfig =
  Interval :: int
  Timeout :: int
  Type :: CheckType
  Path :: string
  ExpectStatus :: int

text \<open>\<open>logger\<close> tells whether a logger is set (\<^verbatim>\<open>hc.logger != nil\<close>).\<close>

record HealthChecker =
  config :: HealthCheckConfig
  logger :: bool

text \<open>
  The network is an argument: what \<^verbatim>\<open>client.Get(url)\<close> gives (an error, or a response
  with its status code) and what \<^verbatim>\<open>net.DialTimeout("tcp", addr, timeout)\<close> gives
  (an error or none). A timeout is one of the errors.
\<close>

record 'e network =
  Get :: "string \<Rightarrow> 'e + int"
  DialTimeout :: "string \<Rightarrow> 'e option"

datatype 'e check_error =
  RequestError 'e
| UnexpectedStatusCode int
| FailedWithStatus int

definition checkTCP :: "HealthChecker \<Rightarrow> 'e network \<Rightarrow> string \<Rightarrow> 'e check_error option" where
  "checkTCP hc net addr =
     (case DialTimeout net addr of
        Some err \<Rightarrow> Some (RequestError err)
      | None \<Rightarrow> None)"

definition checkHTTP :: "HealthChecker \<Rightarrow> 'e network \<Rightarrow> string \<Rightarrow> 'e check_error option" where
  "checkHTTP hc net addr =
     (let path = (if Path (config hc) = '''' then ''/'' else Path (config hc));
          url = ''http://'' @ addr @ path
      in case Get net url of
           Inl err \<Rightarrow> Some (RequestError err)
         | Inr StatusCode \<Rightarrow>
             if ExpectStatus (config hc) > 0 \<and> StatusCode \<noteq> ExpectStatus (config hc)
             then Some (UnexpectedStatusCode StatusCode)
             else if StatusCode \<ge> 200 \<and> StatusCode < 400 then None
             else Some (FailedWithStatus StatusCode))"

text \<open>The URL that \<^verbatim>\<open>checkHTTP\<close> requests, for the statements about it.\<close>

definition probe_url :: "HealthChecker \<Rightarrow> string \<Rightarrow> string" where
  "probe_url hc addr =
     ''http://'' @ addr @ (if Path (config hc) = '''' then ''/'' else Path (config hc))"

text \<open>
  Markers are shared objects: the state holds them in a store, and a candidate refers to
  its marker by the marker's address. The debug log is part of the state as well.
\<close>

datatype 'e logline = CheckFailed string "'e check_error" | CheckPassed string

record 'e state =
  markers :: "nat \<Rightarrow> marker"
  log :: "'e logline list"

text \<open>
  Modelled from the spec: the marker's \<^verbatim>\<open>Mark\<close> and \<^verbatim>\<open>Reset\<close>, which are not among the
  source files. \<^verbatim>\<open>Mark\<close> increments the count and sets the time to now, \<^verbatim>\<open>Reset\<close>
  sets the count to 0.
\<close>

definition Mark :: "int \<Rightarrow> marker \<Rightarrow> marker" where
  "Mark now m = m\<lparr>Count := Count m + 1, Time := now\<rparr>"

definition Reset :: "marker \<Rightarrow> marker" where
  "Reset m = m\<lparr>Count := 0\<rparr>"

text \<open>
  The node type is declared outside the repository; the probe reads its \<^verbatim>\<open>Addr\<close> and
  calls its \<^verbatim>\<open>Marker()\<close>, here the address of the marker or \<open>None\<close> for nil.
  A value of type \<^verbatim>\<open>any\<close> handed to the probe is a pointer to a node, possibly nil, or
  a value of another type, of which only the \<^verbatim>\<open>Markable\<close> capability matters.
\<close>

record Node =
  Addr :: string
  Marker :: "nat option"

datatype any = NodePtr "Node option" | Other "nat option option"

text \<open>
  The assertion \<^verbatim>\<open>v.(selector.Markable)\<close> followed by \<^verbatim>\<open>Marker()\<close>: \<open>None\<close> when
  the assertion fails. On a node it calls the same method as \<^verbatim>\<open>node.Marker()\<close>.
\<close>

fun assert_Markable :: "any \<Rightarrow> nat option option" where
  "assert_Markable (NodePtr (Some node)) = Some (Marker node)"
| "assert_Markable (NodePtr None) = Some None"
| "assert_Markable (Other markable) = markable"

definition check :: "HealthChecker \<Rightarrow> 'e network \<Rightarrow> int \<Rightarrow> any \<Rightarrow> 'e state \<Rightarrow> 'e state" where
  "check hc net now v st =
     (case v of
        NodePtr (Some node) \<Rightarrow>
          (let addr = Addr node
           in if addr = '''' then st
              else
                (case (case Marker node of
                         Some marker \<Rightarrow> Some marker
                       | None \<Rightarrow>
                           (case assert_Markable v of
                              None \<Rightarrow> None
                            | Some marker \<Rightarrow> marker)) of
                   None \<Rightarrow> st
                 | Some marker \<Rightarrow>
                     (let err = (if Type (config hc) = CheckTypeHTTP
                                 then checkHTTP hc net addr
                                 else checkTCP hc net addr)
                      in case err of
                           Some e \<Rightarrow>
                             (let st' = st\<lparr>markers := (markers st)(marker := Mark now (markers st marker))\<rparr>
                              in if logger hc then st'\<lparr>log := log st' @ [CheckFailed addr e]\<rparr> else st')
                         | None \<Rightarrow>
                             (let st' = st\<lparr>markers := (markers st)(marker := Reset (markers st marker))\<rparr>
                              in if logger hc then st'\<lparr>log := log st' @ [CheckPassed addr]\<rparr> else st'))))
      | _ \<Rightarrow> st)"

section \<open>Example candidates\<close>

text \<open>Concrete candidates on which the theorems below are exercised.\<close>

text \<open>
  Example metadata is an association list from keys to integers, read by helpers that
  give 0 or false for a nil metadata and for a missing key.
\<close>

definition example_env :: "(string \<times> int) list env" where
  "example_env =
     \<lparr>labelWeight = ''weight'', labelBackup = ''backup'',
      labelMaxFails = ''maxFails'', labelFailTimeout = ''failTimeout'',
      DefaultFailTimeout = 10000000000,
      IsExists = (\<lambda>md key. map_of md key \<noteq> None),
      GetInt = (\<lambda>md key. case md of None \<Rightarrow> 0
                  | Some m \<Rightarrow> (case map_of m key of None \<Rightarrow> 0 | Some n \<Rightarrow> n)),
      GetDuration = (\<lambda>md key. case md of None \<Rightarrow> 0
                  | Some m \<Rightarrow> (case map_of m key of None \<Rightarrow> 0 | Some n \<Rightarrow> n)),
      GetBool = (\<lambda>md key. case md of None \<Rightarrow> False
                  | Some m \<Rightarrow> (case map_of m key of None \<Rightarrow> False | Some n \<Rightarrow> n \<noteq> 0))\<rparr>"

definition plain :: "string \<Rightarrow> (string \<times> int) list candidate" where
  "plain name = \<lparr>ident = name, Markable = None, Metadatable = None,
                 Connectable = None, LatencyStater = None\<rparr>"

definition with_conns :: "string \<Rightarrow> 64 word \<Rightarrow> (string \<times> int) list candidate" where
  "with_conns name n = (plain name)\<lparr>Connectable := Some n\<rparr>"

definition with_marker :: "string \<Rightarrow> int \<Rightarrow> int \<Rightarrow> (string \<times> int) list candidate" where
  "with_marker name c t = (plain name)\<lparr>Markable := Some (Some \<lparr>Count = c, Time = t\<rparr>)\<rparr>"

definition with_metadata :: "string \<Rightarrow> (string \<times> int) list \<Rightarrow> (string \<times> int) list candidate" where
  "with_metadata name md = (plain name)\<lparr>Metadatable := Some (Some md)\<rparr>"

definition example_checker :: "CheckType \<Rightarrow> int \<Rightarrow> HealthChecker" where
  "example_checker t expect =
     \<lparr>config = \<lparr>Interval = 30000000000, Timeout = 5000000000, Type = t, Path = '''',
                 ExpectStatus = expect\<rparr>,
      logger = True\<rparr>"

text \<open>A network where every dial is refused and every GET is answered with the status \<open>status\<close>.\<close>

definition example_network :: "int \<Rightarrow> string network" where
  "example_network status =
     \<lparr>Get = (\<lambda>url. Inr status), DialTimeout = (\<lambda>addr. Some ''connection refused'')\<rparr>"

definition example_state :: "string state" where
  "example_state = \<lparr>markers = (\<lambda>r. \<lparr>Count = 0, Time = 0\<rparr>), log = []\<rparr>"

section \<open>Properties of the strategies\<close>

subsection \<open>Slices and draws\<close>

lemma sint_le_MaxInt64: "sint (x :: 64 word) \<le> sint MaxInt64"
  using sint_lt [of x] by (simp add: MaxInt64_def)

lemma index_in_range: "i < length vs \<Longrightarrow> index vs i = Inr (vs ! i)"
  by (simp add: index_def)

lemma Intn_index_member:
  assumes "cs \<noteq> []"
  shows "\<exists>x\<in>set cs. (case Intn r (length cs) of Inl e \<Rightarrow> Inl e | Inr i \<Rightarrow> index cs i) = Inr x"
  using assms by (simp add: Intn_def index_def)

subsection \<open>Membership of the result\<close>




subsection \<open>The LeastConn loop\<close>

lemma leastConn_loop_subset:
  "set (snd (leastConn_loop vs m cs)) \<subseteq> set vs \<union> set cs"
  by (induction vs arbitrary: m cs) (fastforce simp: Let_def split: if_splits)+

lemma leastConn_loop_keeps_nonempty:
  "cs \<noteq> [] \<Longrightarrow> snd (leastConn_loop vs m cs) \<noteq> []"
  by (induction vs arbitrary: m cs) (simp_all add: Let_def)

lemma leastConn_loop_nonempty:
  assumes "vs \<noteq> []"
  shows "snd (leastConn_loop vs MaxInt64 []) \<noteq> []"
proof (cases vs)
  case Nil
  with assms show ?thesis by simp
next
  case (Cons v rest)
  have "sint (conns_of v) < sint MaxInt64 \<or> conns_of v = MaxInt64"
    using sint_le_MaxInt64 [of "conns_of v"] by (auto simp: order_le_less intro: signed_word_eqI)
  then show ?thesis
    using Cons by (auto simp: Let_def leastConn_loop_keeps_nonempty)
qed

lemma leastConn_loop_minimal:
  assumes "\<forall>c\<in>set cs. conns_of c = m" and "x \<in> set (snd (leastConn_loop vs m cs))"
  shows "sint (conns_of x) \<le> sint m \<and> (\<forall>y\<in>set vs. sint (conns_of x) \<le> sint (conns_of y))"
  using assms
proof (induction vs arbitrary: m cs)
  case Nil
  then show ?case by simp
next
  case (Cons v vs)
  show ?case
  proof (cases "sint (conns_of v) < sint m")
    case True
    with Cons.prems have "x \<in> set (snd (leastConn_loop vs (conns_of v) [v]))"
      by (simp add: Let_def)
    with Cons.IH [of "[v]" "conns_of v"] True show ?thesis by auto
  next
    case False
    show ?thesis
    proof (cases "conns_of v = m")
      case True
      with Cons.prems False have "x \<in> set (snd (leastConn_loop vs m (cs @ [v])))"
        by (simp add: Let_def)
      with Cons.IH [of "cs @ [v]" m] Cons.prems(1) True show ?thesis by auto
    next
      case neq: False
      with Cons.prems False have "x \<in> set (snd (leastConn_loop vs m cs))"
        by (simp add: Let_def)
      with Cons.IH [of cs m] Cons.prems(1) False show ?thesis by auto
    qed
  qed
qed

lemma leastConn_Apply_picks:
  assumes "vs \<noteq> []"
  shows "\<exists>x\<in>set (snd (leastConn_loop vs MaxInt64 [])). leastConnStrategy_Apply zero r vs = Inr x"
proof -
  obtain m cs where loop: "leastConn_loop vs MaxInt64 [] = (m, cs)"
    by (cases "leastConn_loop vs MaxInt64 []")
  with leastConn_loop_nonempty [OF assms] have ne: "cs \<noteq> []" by simp
  show ?thesis
  proof (cases "length cs = 1")
    case True
    with assms loop show ?thesis
      by (cases cs) (simp_all add: leastConnStrategy_Apply_def index_def)
  next
    case False
    with assms loop Intn_index_member [OF ne, of r] show ?thesis
      by (simp add: leastConnStrategy_Apply_def)
  qed
qed


lemma leastConn_minimal:
  assumes "vs \<noteq> []"
  shows "\<exists>x\<in>set vs. leastConnStrategy_Apply zero r vs = Inr x
           \<and> (\<forall>y\<in>set vs. sint (conns_of x) \<le> sint (conns_of y))"
proof -
  from leastConn_Apply_picks [OF assms, of zero r]
  obtain x where x: "x \<in> set (snd (leastConn_loop vs MaxInt64 []))"
    and res: "leastConnStrategy_Apply zero r vs = Inr x" by blast
  from x leastConn_loop_subset [of vs MaxInt64 "[]"] have "x \<in> set vs" by auto
  moreover from leastConn_loop_minimal [of "[]" MaxInt64 x vs] x
  have "\<forall>y\<in>set vs. sint (conns_of x) \<le> sint (conns_of y)" by simp
  ultimately show ?thesis using res by blast
qed

lemma leastConn_loop_append:
  "leastConn_loop (xs @ ys) m cs =
     leastConn_loop ys (fst (leastConn_loop xs m cs)) (snd (leastConn_loop xs m cs))"
  by (induction xs arbitrary: m cs) (simp_all add: Let_def)

lemma leastConn_loop_positive:
  assumes "0 < sint m" and "\<forall>y\<in>set xs. 1 \<le> sint (conns_of y)"
  shows "0 < sint (fst (leastConn_loop xs m cs))"
  using assms by (induction xs arbitrary: m cs) (simp_all add: Let_def)

lemma leastConn_loop_above:
  assumes "\<forall>y\<in>set ys. sint m < sint (conns_of y)"
  shows "leastConn_loop ys m cs = (m, cs)"
  using assms by (induction ys arbitrary: cs) (auto simp: Let_def)

lemma leastConn_loop_unique_zero:
  assumes "conns_of c = 0"
    and "\<forall>y\<in>set xs \<union> set ys. 1 \<le> sint (conns_of y)"
  shows "leastConn_loop (xs @ c # ys) MaxInt64 [] = (0, [c])"
proof -
  have "0 < sint (fst (leastConn_loop xs MaxInt64 []))"
    using assms(2) by (intro leastConn_loop_positive) (simp_all add: MaxInt64_def)
  then have "leastConn_loop (c # ys) (fst (leastConn_loop xs MaxInt64 [])) (snd (leastConn_loop xs MaxInt64 []))
      = leastConn_loop ys 0 [c]"
    using assms(1) by (simp add: Let_def)
  also have "\<dots> = (0, [c])"
  proof (rule leastConn_loop_above)
    show "\<forall>y\<in>set ys. sint (0 :: 64 word) < sint (conns_of y)"
    proof
      fix y assume "y \<in> set ys"
      with assms(2) have "1 \<le> sint (conns_of y)" by blast
      then show "sint (0 :: 64 word) < sint (conns_of y)" by simp
    qed
  qed
  finally show ?thesis by (simp add: leastConn_loop_append)
qed

lemma leastConn_unique_zero:
  assumes "conns_of c = 0"
    and "\<forall>y\<in>set xs \<union> set ys. 1 \<le> sint (conns_of y)"
  shows "leastConnStrategy_Apply zero r (xs @ c # ys) = Inr c"
  using leastConn_loop_unique_zero [OF assms]
  by (simp add: leastConnStrategy_Apply_def index_def)

subsection \<open>The LeastLatency loop\<close>





subsection \<open>Results on the strategies\<close>

text \<open>
  C8. Given an empty candidate list, the Apply of each of the six strategies (RoundRobin,
  Random, FIFO, Hash, LeastConn, LeastLatency) returns the zero value of the candidate
  type; RoundRobin also leaves its counter as it was.
\<close>

theorem strategies_empty_zero:
  "roundRobinStrategy_Apply zero s [] = (Inr zero, s)
   \<and> randomStrategy_Apply E zero r [] = Inr zero
   \<and> fifoStrategy_Apply zero [] = Inr zero
   \<and> hashStrategy_Apply crc zero r h [] = Inr zero
   \<and> leastConnStrategy_Apply zero r [] = Inr zero
   \<and> leastLatencyStrategy_Apply zero r [] = Inr zero"
  by (simp add: roundRobinStrategy_Apply_def randomStrategy_Apply_def fifoStrategy_Apply_def
      hashStrategy_Apply_def leastConnStrategy_Apply_def leastLatencyStrategy_Apply_def)



text \<open>
  C6. On a non-empty list LeastConn returns a candidate of the list whose ActiveConns value
  (0 for a candidate that is not Connectable) is minimal over the list; and when one
  candidate of the list has the value 0 and all others have at least 1, LeastConn returns
  that candidate, whatever the random source draws.
\<close>

theorem leastConn_returns_minimum:
  "(vs \<noteq> [] \<longrightarrow>
      (\<exists>x\<in>set vs. leastConnStrategy_Apply zero r vs = Inr x
          \<and> (\<forall>y\<in>set vs. sint (conns_of x) \<le> sint (conns_of y))))
   \<and> (conns_of c = 0 \<and> (\<forall>y\<in>set xs \<union> set ys. 1 \<le> sint (conns_of y)) \<longrightarrow>
        leastConnStrategy_Apply zero r (xs @ c # ys) = Inr c)"
  using leastConn_minimal [of vs zero r] leastConn_unique_zero [of c xs ys zero r]
  by blast

theorem leastConn_returns_minimum_witness:
  "[with_conns ''a'' 2, plain ''b'', with_conns ''c'' 1] \<noteq> []
   \<and> conns_of (plain ''b'') = 0
   \<and> 1 \<le> sint (conns_of (with_conns ''a'' 2))
   \<and> 1 \<le> sint (conns_of (with_conns ''c'' 1))
   \<and> leastConnStrategy_Apply (plain []) 7 ([with_conns ''a'' 2] @ plain ''b'' # [with_conns ''c'' 1])
        = Inr (plain ''b'')
   \<and> sint (conns_of (plain ''b'')) \<le> sint (conns_of (with_conns ''a'' 2))
   \<and> sint (conns_of (plain ''b'')) \<le> sint (conns_of (with_conns ''c'' 1))"
proof -
  have c0: "conns_of (plain ''b'') = 0"
    by (simp add: conns_of_def plain_def)
  have a: "1 \<le> sint (conns_of (with_conns ''a'' 2))"
    and c: "1 \<le> sint (conns_of (with_conns ''c'' 1))"
    by (simp_all add: conns_of_def with_conns_def plain_def)
  then have others:
    "\<forall>y\<in>set [with_conns ''a'' 2] \<union> set [with_conns ''c'' 1]. 1 \<le> sint (conns_of y)"
    by simp
  have ne: "[with_conns ''a'' 2] @ plain ''b'' # [with_conns ''c'' 1] \<noteq> []" by simp
  from leastConn_returns_minimum
    [of "[with_conns ''a'' 2] @ plain ''b'' # [with_conns ''c'' 1]" "plain []" 7
        "plain ''b''" "[with_conns ''a'' 2]" "[with_conns ''c'' 1]"] c0 others ne
  have res: "leastConnStrategy_Apply (plain []) 7 ([with_conns ''a'' 2] @ plain ''b'' # [with_conns ''c'' 1])
        = Inr (plain ''b'')"
    and "\<exists>x\<in>set ([with_conns ''a'' 2] @ plain ''b'' # [with_conns ''c'' 1]).
           leastConnStrategy_Apply (plain []) 7 ([with_conns ''a'' 2] @ plain ''b'' # [with_conns ''c'' 1]) = Inr x
           \<and> (\<forall>y\<in>set ([with_conns ''a'' 2] @ plain ''b'' # [with_conns ''c'' 1]).
                  sint (conns_of x) \<le> sint (conns_of y))"
    by blast+
  then have "sint (conns_of (plain ''b'')) \<le> sint (conns_of (with_conns ''a'' 2))"
    and "sint (conns_of (plain ''b'')) \<le> sint (conns_of (with_conns ''c'' 1))"
    by auto
  with c0 a c res show ?thesis by simp
qed

section \<open>Properties of RoundRobin over consecutive calls\<close>

lemma roundRobin_Apply_nonempty:
  "vs \<noteq> [] \<Longrightarrow>
     roundRobinStrategy_Apply zero s vs =
       (Inr (vs ! (unat (counter s) mod length vs)), s\<lparr>counter := counter s + 1\<rparr>)"
  by (simp add: roundRobinStrategy_Apply_def Let_def index_def)

lemma upt_0_Suc_Cons: "[0..<Suc k] = 0 # map Suc [0..<k]"
  by (simp only: map_Suc_upt upt_conv_Cons [of 0 "Suc k"] zero_less_Suc)

lemma roundRobin_calls_indices:
  assumes "vs \<noteq> []"
  shows "roundRobinStrategy_calls zero s vs k =
           (map (\<lambda>i. Inr (vs ! (unat (counter s + of_nat i) mod length vs))) [0..<k],
            s\<lparr>counter := counter s + of_nat k\<rparr>)"
proof (induction k arbitrary: s)
  case 0
  show ?case by simp
next
  case (Suc k)
  let ?s' = "s\<lparr>counter := counter s + 1\<rparr>"
  have rest: "roundRobinStrategy_calls zero ?s' vs k =
           (map (\<lambda>i. Inr (vs ! (unat (counter s + of_nat (Suc i)) mod length vs))) [0..<k],
            s\<lparr>counter := counter s + of_nat (Suc k)\<rparr>)"
    by (simp add: Suc.IH [of ?s'] add.assoc)
  have "roundRobinStrategy_calls zero s vs (Suc k) =
            (Inr (vs ! (unat (counter s + of_nat 0) mod length vs))
               # map (\<lambda>i. Inr (vs ! (unat (counter s + of_nat (Suc i)) mod length vs))) [0..<k],
             s\<lparr>counter := counter s + of_nat (Suc k)\<rparr>)"
    by (simp add: roundRobin_Apply_nonempty [OF assms] rest del: upt_Suc of_nat_Suc)
  also have "\<dots> = (map (\<lambda>i. Inr (vs ! (unat (counter s + of_nat i) mod length vs))) [0..<Suc k],
            s\<lparr>counter := counter s + of_nat (Suc k)\<rparr>)"
    by (simp only: upt_0_Suc_Cons list.map map_map comp_def)
  finally show ?case .
qed

lemma unat_counter_plus:
  fixes c :: "64 word"
  shows "unat (c + of_nat i) = (unat c + i) mod 2 ^ 64"
  by (simp add: unat_word_ariths unat_of_nat mod_add_right_eq)

lemma roundRobin_index_no_wrap:
  fixes c :: "64 word"
  assumes "unat c + n \<le> 2 ^ 64 \<or> n dvd 2 ^ 64" and "i < n"
  shows "unat (c + of_nat i) mod n = (unat c + i) mod n"
  using assms(1)
proof
  assume "unat c + n \<le> 2 ^ 64"
  with assms(2) have "unat c + i < 2 ^ 64" by simp
  then show ?thesis by (simp add: unat_counter_plus)
next
  assume "n dvd 2 ^ 64"
  then show ?thesis by (simp add: unat_counter_plus mod_mod_cancel)
qed

lemma rotate_as_map:
  assumes "vs \<noteq> []"
  shows "map (\<lambda>i. vs ! ((c + i) mod length vs)) [0..<length vs] = rotate (c mod length vs) vs"
proof (rule nth_equalityI)
  show "length (map (\<lambda>i. vs ! ((c + i) mod length vs)) [0..<length vs])
          = length (rotate (c mod length vs) vs)"
    by simp
next
  fix i
  assume "i < length (map (\<lambda>i. vs ! ((c + i) mod length vs)) [0..<length vs])"
  then have i: "i < length vs" by simp
  then show "map (\<lambda>i. vs ! ((c + i) mod length vs)) [0..<length vs] ! i
               = rotate (c mod length vs) vs ! i"
    by (simp add: nth_rotate mod_add_left_eq)
qed

lemma roundRobin_calls_cycle:
  assumes "vs \<noteq> []"
    and "unat (counter s) + length vs \<le> 2 ^ 64 \<or> length vs dvd 2 ^ 64"
  shows "fst (roundRobinStrategy_calls zero s vs (length vs))
           = map (\<lambda>i. Inr (vs ! ((unat (counter s) + i) mod length vs))) [0..<length vs]"
proof -
  have "map (\<lambda>i. Inr (vs ! (unat (counter s + of_nat i) mod length vs))) [0..<length vs]
          = map (\<lambda>i. Inr (vs ! ((unat (counter s) + i) mod length vs))) [0..<length vs]"
    by (rule map_cong [OF refl]) (simp add: roundRobin_index_no_wrap [OF assms(2)])
  then show ?thesis
    by (simp add: roundRobin_calls_indices [OF assms(1)])
qed

text \<open>
  C4 (for a counter whose wrap does not break the cycle). For a non-empty list of length N
  and a counter value c before the first call with \<open>c + N \<le> 2^64\<close>, or with N a divisor
  of \<open>2^64\<close>, N consecutive Apply calls on the list return the candidates in list order,
  cyclically, starting at the index c mod N: every candidate once, the k-th call returning
  the candidate at index (c + k) mod N. The counter has then advanced by N, so the next
  call continues with the index that follows.
\<close>

theorem roundRobin_cycle:
  assumes "vs \<noteq> []"
    and "unat (counter s) + length vs \<le> 2 ^ 64 \<or> length vs dvd 2 ^ 64"
  shows "fst (roundRobinStrategy_calls zero s vs (length vs))
           = map Inr (rotate (unat (counter s) mod length vs) vs)
       \<and> (\<forall>k<length vs. fst (roundRobinStrategy_calls zero s vs (length vs)) ! k
             = Inr (vs ! ((unat (counter s) + k) mod length vs)))
       \<and> counter (snd (roundRobinStrategy_calls zero s vs (length vs)))
           = counter s + of_nat (length vs)"
proof (intro conjI allI impI)
  have "map (\<lambda>i. Inr (vs ! ((unat (counter s) + i) mod length vs))) [0..<length vs]
          = map Inr (map (\<lambda>i. vs ! ((unat (counter s) + i) mod length vs)) [0..<length vs])"
    by (simp add: comp_def)
  also have "\<dots> = map Inr (rotate (unat (counter s) mod length vs) vs)"
    by (simp only: rotate_as_map [OF assms(1)])
  finally show "fst (roundRobinStrategy_calls zero s vs (length vs))
           = map Inr (rotate (unat (counter s) mod length vs) vs)"
    by (simp add: roundRobin_calls_cycle [OF assms])
next
  fix k assume "k < length vs"
  then show "fst (roundRobinStrategy_calls zero s vs (length vs)) ! k
             = Inr (vs ! ((unat (counter s) + k) mod length vs))"
    by (simp add: roundRobin_calls_cycle [OF assms])
next
  show "counter (snd (roundRobinStrategy_calls zero s vs (length vs)))
           = counter s + of_nat (length vs)"
    by (simp add: roundRobin_calls_indices [OF assms(1)])
qed

theorem roundRobin_cycle_witness:
  "[''a'', ''b'', ''c''] \<noteq> []
   \<and> unat (counter \<lparr>counter = 4\<rparr>) + length [''a'', ''b'', ''c''] \<le> 2 ^ 64
   \<and> fst (roundRobinStrategy_calls '''' \<lparr>counter = 4\<rparr> [''a'', ''b'', ''c''] 3)
        = [Inr ''b'', Inr ''c'', Inr ''a'']
   \<and> counter (snd (roundRobinStrategy_calls '''' \<lparr>counter = 4\<rparr> [''a'', ''b'', ''c''] 3)) = 7"
proof -
  have ne: "[''a'', ''b'', ''c''] \<noteq> []" by simp
  have nw: "unat (counter \<lparr>counter = 4\<rparr>) + length [''a'', ''b'', ''c''] \<le> 2 ^ 64" by simp
  then have hyp: "unat (counter \<lparr>counter = 4\<rparr>) + length [''a'', ''b'', ''c''] \<le> 2 ^ 64
      \<or> length [''a'', ''b'', ''c''] dvd 2 ^ 64" ..
  have len: "length [''a'', ''b'', ''c''] = 3" by simp
  have rot: "rotate (unat (counter \<lparr>counter = 4\<rparr>) mod 3) [''a'', ''b'', ''c'']
               = [''b'', ''c'', ''a'']"
    by (simp add: rotate1_def)
  have cnt: "counter \<lparr>counter = 4\<rparr> + of_nat 3 = (7 :: 64 word)" by simp
  note cycle = roundRobin_cycle [OF ne hyp, of "''''", unfolded len rot cnt]
  from cycle [THEN conjunct1] cycle [THEN conjunct2, THEN conjunct2] ne nw
  show ?thesis by (simp only: simp_thms list.map)
qed

text \<open>
  Where the 64-bit counter wraps, the cycle breaks: from the largest counter value, three
  calls on a list of three candidates return the first candidate twice and never the
  third, since \<open>2^64 - 1\<close> and 0 have the same remainder by 3.
\<close>

lemma roundRobin_step_max:
  "roundRobinStrategy_Apply '''' \<lparr>counter = 18446744073709551615\<rparr> [''a'', ''b'', ''c'']
     = (Inr ''a'', \<lparr>counter = 0\<rparr>)"
proof -
  have "unat (18446744073709551615 :: 64 word) mod 3 = 0" by simp
  moreover have "length [''a'', ''b'', ''c''] = 3" by simp
  moreover have "(18446744073709551615 :: 64 word) + 1 = 0" by simp
  ultimately show ?thesis
    by (simp add: roundRobin_Apply_nonempty del: length_Cons list.size)
qed

lemma roundRobin_step_0:
  "roundRobinStrategy_Apply '''' \<lparr>counter = 0\<rparr> [''a'', ''b'', ''c'']
     = (Inr ''a'', \<lparr>counter = 1\<rparr>)"
  by (simp add: roundRobin_Apply_nonempty)

lemma roundRobin_step_1:
  "roundRobinStrategy_Apply '''' \<lparr>counter = 1\<rparr> [''a'', ''b'', ''c'']
     = (Inr ''b'', \<lparr>counter = 2\<rparr>)"
  by (simp add: roundRobin_Apply_nonempty)

theorem roundRobin_wrap_counterexample:
  "fst (roundRobinStrategy_calls '''' \<lparr>counter = 18446744073709551615\<rparr> [''a'', ''b'', ''c''] 3)
     = [Inr ''a'', Inr ''a'', Inr ''b'']
   \<and> Inr ''c'' \<notin> set (fst (roundRobinStrategy_calls ''''
         \<lparr>counter = 18446744073709551615\<rparr> [''a'', ''b'', ''c''] 3))"
  by (simp add: numeral_3_eq_3 roundRobin_step_max roundRobin_step_0 roundRobin_step_1)

section \<open>Properties of the filters\<close>

text \<open>
  Saturation does not change a comparison with a timeout that is itself a duration above
  the smallest one: \<open>time.Since(t) \<ge> d\<close> says that the time elapsed is at least \<open>d\<close>.
\<close>

lemma Since_ge_iff:
  assumes "- (2 ^ 63) < d" and "d \<le> 2 ^ 63 - 1"
  shows "Since now t \<ge> d \<longleftrightarrow> now - t \<ge> d"
  using assms by (auto simp: Since_def)

lemma failFilter_limits_effective:
  "failFilter_limits E f v = (effectiveMaxFails E f v, effectiveFailTimeout E f v)"
  by (simp add: failFilter_limits_def effectiveMaxFails_def effectiveFailTimeout_def
      metadata_of_def Let_def split: option.splits)

lemma failFilter_loop_filter:
  "failFilter_loop E f now vs l = l @ filter (failFilter_keeps E f now) vs"
proof (induction vs arbitrary: l)
  case Nil
  show ?case by simp
next
  case (Cons v vs)
  show ?case
    by (simp add: Cons.IH failFilter_limits_effective failFilter_keeps_def marker_of_def
        split: option.splits)
qed

lemma healthCheckFilter_loop_filter:
  "healthCheckFilter_loop limit vs l = l @ filter (healthCheck_keeps limit) vs"
proof (induction vs arbitrary: l)
  case Nil
  show ?case by simp
next
  case (Cons v vs)
  show ?case
    by (simp add: Cons.IH healthCheck_keeps_def marker_of_def split: option.splits)
qed

lemma healthCheckFilter_Filter_eq:
  "healthCheckFilter_Filter f vs =
     (if length vs \<le> 1 then vs
      else if filter (healthCheck_keeps (healthCheck_effectiveMaxFails f)) vs = [] then vs
      else filter (healthCheck_keeps (healthCheck_effectiveMaxFails f)) vs)"
  by (simp add: healthCheckFilter_Filter_def healthCheckFilter_loop_filter
      healthCheck_effectiveMaxFails_def Let_def)

lemma backupFilter_loop_filter:
  "backupFilter_loop E vs l backups =
     (l @ filter (\<lambda>v. \<not> is_backup E v) vs, backups @ filter (is_backup E) vs)"
proof (induction vs arbitrary: l backups)
  case Nil
  show ?case by simp
next
  case (Cons v vs)
  show ?case
    by (simp add: Cons.IH is_backup_def split: option.splits)
qed

lemma backupFilter_Filter_eq:
  "backupFilter_Filter E vs =
     (if length vs \<le> 1 then vs
      else if filter (\<lambda>v. \<not> is_backup E v) vs = [] then filter (is_backup E) vs
      else filter (\<lambda>v. \<not> is_backup E v) vs)"
  by (simp add: backupFilter_Filter_def backupFilter_loop_filter)

lemma failFilter_Filter_eq:
  "failFilter_Filter E f now vs =
     (if length vs \<le> 1 then vs else filter (failFilter_keeps E f now) vs)"
  by (simp add: failFilter_Filter_def failFilter_loop_filter)

text \<open>
  C1. On an input of length at least 2, FailFilter keeps exactly the candidates, in their
  order, whose marker is absent, or whose count is below the effective max-fails, or for
  which the time since the marker's time is at least the effective fail-timeout. The
  effective values (\<open>effectiveMaxFails\<close>, \<open>effectiveFailTimeout\<close>) are the configured
  ones unless the candidate's metadata sets the key, and a non-positive value is replaced
  by 1 and by the default timeout.
\<close>

theorem failFilter_keeps_iff:
  assumes "2 \<le> length vs"
  shows "failFilter_Filter E f now vs = filter (failFilter_keeps E f now) vs"
  using assms by (simp add: failFilter_Filter_eq)

theorem failFilter_keeps_iff_witness:
  "2 \<le> length [with_marker ''a'' 1 0, with_marker ''b'' 1 95, with_marker ''c'' 0 99,
                 (with_marker ''d'' 2 99)\<lparr>Metadatable := Some (Some [(''maxFails'', 3)])\<rparr>]
   \<and> failFilter_Filter example_env \<lparr>failFilter.maxFails = 1, failTimeout = 10\<rparr> 100
        [with_marker ''a'' 1 0, with_marker ''b'' 1 95, with_marker ''c'' 0 99,
         (with_marker ''d'' 2 99)\<lparr>Metadatable := Some (Some [(''maxFails'', 3)])\<rparr>]
       = [with_marker ''a'' 1 0, with_marker ''c'' 0 99,
          (with_marker ''d'' 2 99)\<lparr>Metadatable := Some (Some [(''maxFails'', 3)])\<rparr>]"
proof -
  let ?d = "(with_marker ''d'' 2 99)\<lparr>Metadatable := Some (Some [(''maxFails'', 3)])\<rparr>"
  let ?f = "\<lparr>failFilter.maxFails = 1, failTimeout = 10\<rparr>"
  have len: "2 \<le> length [with_marker ''a'' 1 0, with_marker ''b'' 1 95, with_marker ''c'' 0 99, ?d]"
    by simp
  have a: "failFilter_keeps example_env ?f 100 (with_marker ''a'' 1 0)"
    and b: "\<not> failFilter_keeps example_env ?f 100 (with_marker ''b'' 1 95)"
    and c: "failFilter_keeps example_env ?f 100 (with_marker ''c'' 0 99)"
    by (simp_all add: failFilter_keeps_def effectiveMaxFails_def effectiveFailTimeout_def
        marker_of_def metadata_of_def with_marker_def plain_def Since_def)
  have d: "failFilter_keeps example_env ?f 100 ?d"
    by (simp add: failFilter_keeps_def effectiveMaxFails_def effectiveFailTimeout_def
        marker_of_def metadata_of_def with_marker_def plain_def Since_def example_env_def)
  from a b c d
  have "filter (failFilter_keeps example_env ?f 100)
          [with_marker ''a'' 1 0, with_marker ''b'' 1 95, with_marker ''c'' 0 99, ?d]
        = [with_marker ''a'' 1 0, with_marker ''c'' 0 99, ?d]"
    by simp
  with failFilter_keeps_iff [OF len, of example_env ?f 100] len
  show ?thesis by simp
qed

lemma over_threshold_not_kept:
  "over_threshold f v \<Longrightarrow> \<not> healthCheck_keeps (healthCheck_effectiveMaxFails f) v"
  by (simp add: over_threshold_def healthCheck_keeps_def split: option.splits)

text \<open>
  C2. HealthCheckFilter returns a non-empty list for every non-empty input; and when every
  candidate of an input of length at least 2 has a marker whose count is at least the
  effective max-fails, the output is the input.
\<close>

theorem healthCheckFilter_fail_open:
  "(vs \<noteq> [] \<longrightarrow> healthCheckFilter_Filter f vs \<noteq> [])
   \<and> (2 \<le> length vs \<and> (\<forall>v\<in>set vs. over_threshold f v) \<longrightarrow> healthCheckFilter_Filter f vs = vs)"
proof (intro conjI impI)
  assume "vs \<noteq> []"
  then show "healthCheckFilter_Filter f vs \<noteq> []"
    by (simp add: healthCheckFilter_Filter_eq)
next
  assume "2 \<le> length vs \<and> (\<forall>v\<in>set vs. over_threshold f v)"
  then have "filter (healthCheck_keeps (healthCheck_effectiveMaxFails f)) vs = []"
    by (simp add: filter_empty_conv over_threshold_not_kept)
  then show "healthCheckFilter_Filter f vs = vs"
    by (simp add: healthCheckFilter_Filter_eq)
qed

theorem healthCheckFilter_fail_open_witness:
  "[with_marker ''a'' 1 0, with_marker ''b'' 3 0] \<noteq> []
   \<and> 2 \<le> length [with_marker ''a'' 1 0, with_marker ''b'' 3 0]
   \<and> over_threshold \<lparr>healthCheckFilter.maxFails = 0\<rparr> (with_marker ''a'' 1 0)
   \<and> over_threshold \<lparr>healthCheckFilter.maxFails = 0\<rparr> (with_marker ''b'' 3 0)
   \<and> healthCheckFilter_Filter \<lparr>healthCheckFilter.maxFails = 0\<rparr>
        [with_marker ''a'' 1 0, with_marker ''b'' 3 0]
       = [with_marker ''a'' 1 0, with_marker ''b'' 3 0]"
proof -
  have a: "over_threshold \<lparr>healthCheckFilter.maxFails = 0\<rparr> (with_marker ''a'' 1 0)"
    and b: "over_threshold \<lparr>healthCheckFilter.maxFails = 0\<rparr> (with_marker ''b'' 3 0)"
    by (simp_all add: over_threshold_def healthCheck_effectiveMaxFails_def marker_of_def
        with_marker_def plain_def)
  then have all: "\<forall>v\<in>set [with_marker ''a'' 1 0, with_marker ''b'' 3 0].
      over_threshold \<lparr>healthCheckFilter.maxFails = 0\<rparr> v"
    by simp
  have len: "2 \<le> length [with_marker ''a'' 1 0, with_marker ''b'' 3 0]" by simp
  from healthCheckFilter_fail_open
    [of "[with_marker ''a'' 1 0, with_marker ''b'' 3 0]" "\<lparr>healthCheckFilter.maxFails = 0\<rparr>"]
    all len
  have "healthCheckFilter_Filter \<lparr>healthCheckFilter.maxFails = 0\<rparr>
        [with_marker ''a'' 1 0, with_marker ''b'' 3 0]
       = [with_marker ''a'' 1 0, with_marker ''b'' 3 0]"
    by blast
  with a b len show ?thesis by simp
qed

text \<open>
  C3. On a list with at least one non-backup and at least one backup candidate,
  BackupFilter returns exactly the non-backup candidates, in their order; on a list of
  backup candidates only, it returns the input.
\<close>

theorem backupFilter_partition:
  "((\<exists>v\<in>set vs. \<not> is_backup E v) \<and> (\<exists>v\<in>set vs. is_backup E v) \<longrightarrow>
       backupFilter_Filter E vs = filter (\<lambda>v. \<not> is_backup E v) vs)
   \<and> ((\<forall>v\<in>set vs. is_backup E v) \<longrightarrow> backupFilter_Filter E vs = vs)"
proof (intro conjI impI)
  assume mixed: "(\<exists>v\<in>set vs. \<not> is_backup E v) \<and> (\<exists>v\<in>set vs. is_backup E v)"
  then obtain a b where "a \<in> set vs" "\<not> is_backup E a" "b \<in> set vs" "is_backup E b" by blast
  then have ne: "filter (\<lambda>v. \<not> is_backup E v) vs \<noteq> []"
    by (auto simp: filter_empty_conv)
  show "backupFilter_Filter E vs = filter (\<lambda>v. \<not> is_backup E v) vs"
  proof (cases "length vs \<le> 1")
    case True
    with mixed show ?thesis
      by (cases vs) auto
  next
    case False
    with ne show ?thesis by (simp add: backupFilter_Filter_eq)
  qed
next
  assume all: "\<forall>v\<in>set vs. is_backup E v"
  then have "filter (\<lambda>v. \<not> is_backup E v) vs = []" and "filter (is_backup E) vs = vs"
    by (simp_all add: filter_empty_conv)
  then show "backupFilter_Filter E vs = vs"
    by (simp add: backupFilter_Filter_eq)
qed

theorem backupFilter_partition_witness:
  "\<not> is_backup example_env (plain ''p'')
   \<and> is_backup example_env (with_metadata ''b1'' [(''backup'', 1)])
   \<and> is_backup example_env (with_metadata ''b2'' [(''backup'', 1)])
   \<and> backupFilter_Filter example_env
        [with_metadata ''b1'' [(''backup'', 1)], plain ''p'', with_metadata ''b2'' [(''backup'', 1)]]
       = [plain ''p'']
   \<and> backupFilter_Filter example_env
        [with_metadata ''b1'' [(''backup'', 1)], with_metadata ''b2'' [(''backup'', 1)]]
       = [with_metadata ''b1'' [(''backup'', 1)], with_metadata ''b2'' [(''backup'', 1)]]"
proof -
  let ?b1 = "with_metadata ''b1'' [(''backup'', 1)]"
  let ?b2 = "with_metadata ''b2'' [(''backup'', 1)]"
  have p: "\<not> is_backup example_env (plain ''p'')"
    by (simp add: is_backup_def plain_def)
  have b1: "is_backup example_env ?b1" and b2: "is_backup example_env ?b2"
    by (simp_all add: is_backup_def with_metadata_def plain_def example_env_def)
  from p b1 b2 have "filter (\<lambda>v. \<not> is_backup example_env v) [?b1, plain ''p'', ?b2] = [plain ''p'']"
    by simp
  moreover from p b1 have "(\<exists>v\<in>set [?b1, plain ''p'', ?b2]. \<not> is_backup example_env v)
      \<and> (\<exists>v\<in>set [?b1, plain ''p'', ?b2]. is_backup example_env v)"
    by simp
  ultimately have mixed: "backupFilter_Filter example_env [?b1, plain ''p'', ?b2] = [plain ''p'']"
    using backupFilter_partition [of "[?b1, plain ''p'', ?b2]" example_env] by simp
  from b1 b2 have "\<forall>v\<in>set [?b1, ?b2]. is_backup example_env v" by simp
  with backupFilter_partition [of "[?b1, ?b2]" example_env]
  have "backupFilter_Filter example_env [?b1, ?b2] = [?b1, ?b2]" by blast
  with p b1 b2 mixed show ?thesis by blast
qed

lemma failFilter_idem:
  "failFilter_Filter E f now (failFilter_Filter E f now vs) = failFilter_Filter E f now vs"
  by (simp add: failFilter_Filter_eq)

lemma healthCheckFilter_idem:
  "healthCheckFilter_Filter f (healthCheckFilter_Filter f vs) = healthCheckFilter_Filter f vs"
  by (simp add: healthCheckFilter_Filter_eq)

lemma backupFilter_idem:
  "backupFilter_Filter E (backupFilter_Filter E vs) = backupFilter_Filter E vs"
proof (cases "filter (\<lambda>v. \<not> is_backup E v) vs = []")
  case True
  then have "filter (is_backup E) vs = vs"
    by (simp add: filter_empty_conv)
  with True show ?thesis by (simp add: backupFilter_Filter_eq)
next
  case False
  then show ?thesis by (simp add: backupFilter_Filter_eq)
qed

text \<open>
  C7. Each of FailFilter, HealthCheckFilter and BackupFilter is idempotent: with the
  markers, the metadata and the clock unchanged, filtering the output again gives the
  output.
\<close>

theorem filters_idempotent:
  "failFilter_Filter E f now (failFilter_Filter E f now vs) = failFilter_Filter E f now vs
   \<and> healthCheckFilter_Filter h (healthCheckFilter_Filter h vs) = healthCheckFilter_Filter h vs
   \<and> backupFilter_Filter E (backupFilter_Filter E vs) = backupFilter_Filter E vs"
  by (simp only: failFilter_idem healthCheckFilter_idem backupFilter_idem simp_thms)

theorem filters_idempotent_witness:
  "failFilter_Filter example_env \<lparr>failFilter.maxFails = 1, failTimeout = 10\<rparr> 100
     (failFilter_Filter example_env \<lparr>failFilter.maxFails = 1, failTimeout = 10\<rparr> 100
        [with_marker ''a'' 1 0, with_marker ''b'' 1 95, with_marker ''c'' 0 99])
     = failFilter_Filter example_env \<lparr>failFilter.maxFails = 1, failTimeout = 10\<rparr> 100
        [with_marker ''a'' 1 0, with_marker ''b'' 1 95, with_marker ''c'' 0 99]
   \<and> healthCheckFilter_Filter \<lparr>healthCheckFilter.maxFails = 2\<rparr>
      (healthCheckFilter_Filter \<lparr>healthCheckFilter.maxFails = 2\<rparr>
        [with_marker ''a'' 1 0, with_marker ''b'' 1 95, with_marker ''c'' 0 99])
     = healthCheckFilter_Filter \<lparr>healthCheckFilter.maxFails = 2\<rparr>
        [with_marker ''a'' 1 0, with_marker ''b'' 1 95, with_marker ''c'' 0 99]
   \<and> backupFilter_Filter example_env (backupFilter_Filter example_env
        [with_marker ''a'' 1 0, with_marker ''b'' 1 95, with_marker ''c'' 0 99])
     = backupFilter_Filter example_env
        [with_marker ''a'' 1 0, with_marker ''b'' 1 95, with_marker ''c'' 0 99]"
  by (rule filters_idempotent)

section \<open>Properties of the health checker\<close>

lemma checkHTTP_success_iff:
  "checkHTTP hc net addr = None \<longleftrightarrow>
     (\<exists>status. Get net (probe_url hc addr) = Inr status
        \<and> (ExpectStatus (config hc) > 0 \<longrightarrow> status = ExpectStatus (config hc))
        \<and> 200 \<le> status \<and> status < 400)"
  by (auto simp: checkHTTP_def probe_url_def Let_def split: sum.splits if_splits)

lemma checkHTTP_request_error:
  "Get net (probe_url hc addr) = Inl err \<Longrightarrow> checkHTTP hc net addr = Some (RequestError err)"
  by (simp add: checkHTTP_def probe_url_def Let_def)

lemma checkHTTP_no_expected_status:
  "ExpectStatus (config hc) \<le> 0 \<Longrightarrow>
     checkHTTP hc net addr = None \<longleftrightarrow>
       (\<exists>status. Get net (probe_url hc addr) = Inr status \<and> 200 \<le> status \<and> status < 400)"
  by (auto simp: checkHTTP_success_iff)

lemma checkHTTP_expected_status:
  "ExpectStatus (config hc) > 0 \<Longrightarrow>
     checkHTTP hc net addr = None \<longleftrightarrow>
       Get net (probe_url hc addr) = Inr (ExpectStatus (config hc))
         \<and> 200 \<le> ExpectStatus (config hc) \<and> ExpectStatus (config hc) < 400"
  by (auto simp: checkHTTP_success_iff)

text \<open>
  C5. With the expected status 404 configured and a response of status 404, the HTTP
  probe reports a failure: the matching status falls through to the 2xx/3xx test.
\<close>

theorem checkHTTP_expected_404_fails:
  "checkHTTP (example_checker CheckTypeHTTP 404) (example_network 404) ''10.0.0.1:8080''
     = Some (FailedWithStatus 404)"
  by (simp add: checkHTTP_def example_checker_def example_network_def)

lemma check_skips:
  assumes "\<not> (\<exists>node m. v = NodePtr (Some node) \<and> Addr node \<noteq> '''' \<and> Marker node = Some m)"
  shows "check hc net now v st = st"
  using assms
  by (auto simp: check_def Let_def split: any.splits option.splits)

lemma check_frame_node:
  assumes "Marker node = Some m" and "r \<noteq> m"
  shows "markers (check hc net now (NodePtr (Some node)) st) r = markers st r"
  using assms
  by (simp add: check_def Let_def split: option.splits)

text \<open>
  C10. A probe changes the state only for a non-nil node with a non-empty address and a
  non-nil marker, and then no marker but that node's; a value that is not a node, even one
  that is Markable with a marker, and a nil node leave the state as it was.
\<close>

theorem check_mutates_only_node_marker:
  "(check hc net now v st \<noteq> st \<longrightarrow>
      (\<exists>node m. v = NodePtr (Some node) \<and> Addr node \<noteq> '''' \<and> Marker node = Some m
          \<and> (\<forall>r. r \<noteq> m \<longrightarrow> markers (check hc net now v st) r = markers st r)))
   \<and> check hc net now (Other markable) st = st
   \<and> check hc net now (NodePtr None) st = st"
proof (intro conjI impI)
  assume changed: "check hc net now v st \<noteq> st"
  with check_skips [of v hc net now st]
  obtain node m where v: "v = NodePtr (Some node)" "Addr node \<noteq> ''''" "Marker node = Some m"
    by blast
  with check_frame_node [of node m _ hc net now st]
  show "\<exists>node m. v = NodePtr (Some node) \<and> Addr node \<noteq> '''' \<and> Marker node = Some m
          \<and> (\<forall>r. r \<noteq> m \<longrightarrow> markers (check hc net now v st) r = markers st r)"
    by blast
next
  show "check hc net now (Other markable) st = st"
    by (rule check_skips) simp
next
  show "check hc net now (NodePtr None) st = st"
    by (rule check_skips) simp
qed

theorem check_mutates_only_node_marker_witness:
  "check (example_checker CheckTypeTCP 200) (example_network 200) 50
      (NodePtr (Some \<lparr>Addr = ''10.0.0.1:8080'', Marker = Some 3\<rparr>)) example_state \<noteq> example_state
   \<and> Count (markers (check (example_checker CheckTypeTCP 200) (example_network 200) 50
      (NodePtr (Some \<lparr>Addr = ''10.0.0.1:8080'', Marker = Some 3\<rparr>)) example_state) 3) = 1
   \<and> markers (check (example_checker CheckTypeTCP 200) (example_network 200) 50
      (NodePtr (Some \<lparr>Addr = ''10.0.0.1:8080'', Marker = Some 3\<rparr>)) example_state) 4
       = markers example_state 4
   \<and> check (example_checker CheckTypeTCP 200) (example_network 200) 50
       (Other (Some (Some 3))) example_state = example_state"
proof -
  let ?v = "NodePtr (Some \<lparr>Addr = ''10.0.0.1:8080'', Marker = Some 3\<rparr>)"
  let ?st = "check (example_checker CheckTypeTCP 200) (example_network 200) 50 ?v example_state"
  have count: "Count (markers ?st 3) = 1"
    by (simp add: check_def checkTCP_def example_checker_def example_network_def
        example_state_def CheckTypeTCP_def CheckTypeHTTP_def Mark_def)
  have "Count (markers example_state 3) = 0"
    by (simp add: example_state_def)
  with count have changed: "?st \<noteq> example_state" by auto
  from check_mutates_only_node_marker
    [of "example_checker CheckTypeTCP 200" "example_network 200" 50 ?v example_state "Some (Some 3)"]
    changed
  have "markers ?st 4 = markers example_state 4"
    and "check (example_checker CheckTypeTCP 200) (example_network 200) 50
       (Other (Some (Some 3))) example_state = example_state"
    by auto
  with changed count show ?thesis by blast
qed

end
